theory Spec2Isabelle
  imports Main "HOL-Library.AList"
begin

section \<open>The roster manager of SleekXMPP (sleekxmpp/roster/multi.py)\<close>

text \<open>
  The class \<open>Roster\<close> keeps one roster node per JID in the dictionary \<open>_rosters\<close>.
  The embedding follows the Python text method by method. The dictionary is an association
  list in insertion order; a subscript store \<open>d[k] = v\<close> is \<open>AList.update k v\<close>, a
  subscript read \<open>d[k]\<close> is \<open>map_of\<close> with the \<open>KeyError\<close> of a missing key written
  out. A method that can raise returns the error (or its value) together with the state
  the object is left in.
\<close>

subsection \<open>Collaborators that the module imports\<close>

text \<open>The main SleekXMPP instance is only stored and handed on: an opaque reference.\<close>

type_synonym xmpp = nat

text \<open>
  Modelled from the spec: the class \<open>JID\<close> of \<open>sleekxmpp.xmlstream\<close> is imported by the
  module and not part of it. An identity has a full form (identity and resource, as in
  \<open>user@example.com/resource\<close>) and a bare form (identity only, \<open>user@example.com\<close>);
  \<open>bareForm\<close> is the normalisation function the spec names, the text before the
  first slash, and \<open>bare\<close> is the attribute of that name of a JID object.
\<close>

datatype JID = JID string

definition bareForm :: "string \<Rightarrow> string" where
  "bareForm s = takeWhile (\<lambda>c. c \<noteq> CHR ''/'') s"

fun bare :: "JID \<Rightarrow> string" where
  "bare (JID s) = bareForm s"

text \<open>
  The values that reach \<open>__getitem__\<close> and \<open>add\<close>: a JID object, or a plain string
  (what \<open>isinstance(key, JID)\<close> tells apart).
\<close>

datatype ident = Jid JID | Str string

text \<open>The bare form of an identity value in the spec's sense, whatever its Python type.\<close>

fun bare_form :: "ident \<Rightarrow> string" where
  "bare_form (Jid j) = bare j"
| "bare_form (Str s) = bareForm s"

text \<open>
  Modelled from the spec: the datastore interface object is supplied by the caller. The
  module only ever calls \<open>db.entries(None, {})\<close>; \<open>entries\<close> is the sequence of
  identities that call returns. Python's \<open>None\<close> is \<open>None\<close> of \<open>datastore option\<close>.
  \<open>truthy\<close> is the truth value of the object, which \<open>if self.db:\<close> tests: an object
  is true unless its class says otherwise (a \<open>__bool__\<close> that returns false, a
  \<open>__len__\<close> that returns zero). The call is taken to return: a datastore whose
  enumeration raises is outside this model.
\<close>

record datastore =
  db_id :: nat
  truthy :: bool
  entries :: "ident list"

text \<open>
  Modelled from the spec: the class \<open>RosterNode\<close> of \<open>sleekxmpp.roster\<close> is imported by
  the module and not part of it. A node is constructed from the connection, its identity
  and the datastore; it has the two mutable flags, a backend setter and \<open>reset\<close>. The
  model keeps what the constructor was given, the flags, and a record of the calls the
  node received: the arguments of \<open>set_backend\<close> in order, and the number of \<open>reset\<close>
  calls. \<open>oid\<close> is the identity of the object (what Python's \<open>is\<close> compares). The values
  the constructor itself gives the two flags belong to the missing class and are a
  parameter, \<open>node_defaults\<close>.
\<close>

record RosterNode =
  oid :: nat
  node_xmpp :: xmpp
  jid :: string
  node_db :: "datastore option"
  node_auto_authorize :: bool
  node_auto_subscribe :: bool
  set_backend_calls :: "datastore option list"
  reset_calls :: nat

record node_defaults =
  own_auto_authorize :: bool
  own_auto_subscribe :: bool

definition RosterNode_init ::
  "node_defaults \<Rightarrow> nat \<Rightarrow> xmpp \<Rightarrow> string \<Rightarrow> datastore option \<Rightarrow> RosterNode" where
  "RosterNode_init C i x j d =
     \<lparr>oid = i, node_xmpp = x, jid = j, node_db = d,
      node_auto_authorize = own_auto_authorize C,
      node_auto_subscribe = own_auto_subscribe C,
      set_backend_calls = [], reset_calls = 0\<rparr>"

definition node_set_backend :: "datastore option \<Rightarrow> RosterNode \<Rightarrow> RosterNode" where
  "node_set_backend d n = n\<lparr>node_db := d, set_backend_calls := set_backend_calls n @ [d]\<rparr>"

definition node_reset :: "RosterNode \<Rightarrow> RosterNode" where
  "node_reset n = n\<lparr>reset_calls := Suc (reset_calls n)\<rparr>"

subsection \<open>The class Roster\<close>

text \<open>
  The attributes of a \<open>Roster\<close> object. \<open>rosters\<close> is the dictionary \<open>_rosters\<close>;
  \<open>next_oid\<close> is the identity the next constructed node object gets.
\<close>

record Roster =
  xmpp :: xmpp
  db :: "datastore option"
  auto_authorize :: bool
  auto_subscribe :: bool
  rosters :: "(string \<times> RosterNode) list"
  next_oid :: nat

datatype error = KeyError string | AttributeError

text \<open>\<open>keys\<close>, and \<open>__iter__\<close>, which runs over the same keys.\<close>

definition keys :: "Roster \<Rightarrow> string list" where
  "keys r = map fst (rosters r)"

definition iter :: "Roster \<Rightarrow> string list" where
  "iter r = map fst (rosters r)"

text \<open>
  The first two lines of \<open>__getitem__\<close> and of \<open>add\<close>:
  \<open>if isinstance(key, JID): key = key.bare\<close>. A plain string is left as it is.
\<close>

fun to_key :: "ident \<Rightarrow> string" where
  "to_key (Jid j) = bare j"
| "to_key (Str s) = s"

text \<open>The subscript read \<open>self._rosters[key]\<close>.\<close>

definition lookup_node :: "string \<Rightarrow> Roster \<Rightarrow> error + RosterNode" where
  "lookup_node k r = (case map_of (rosters r) k of None \<Rightarrow> Inl (KeyError k) | Some n \<Rightarrow> Inr n)"

text \<open>\<open>add\<close>: lines 91 to 94.\<close>

definition add :: "node_defaults \<Rightarrow> ident \<Rightarrow> Roster \<Rightarrow> Roster" where
  "add C node r =
     (let k = to_key node in
      if k \<notin> set (map fst (rosters r))
      then r\<lparr>rosters := AList.update k (RosterNode_init C (next_oid r) (xmpp r) k (db r)) (rosters r),
             next_oid := Suc (next_oid r)\<rparr>
      else r)"

text \<open>
  \<open>__getitem__\<close>: lines 68 to 74. The two attribute stores each read the node out of the
  dictionary again, as the source does.
\<close>

definition getitem :: "node_defaults \<Rightarrow> ident \<Rightarrow> Roster \<Rightarrow> (error + RosterNode) \<times> Roster" where
  "getitem C key r =
     (let k = to_key key in
      if k \<notin> set (map fst (rosters r)) then
        (let r1 = add C (Str k) r in
         case lookup_node k r1 of
           Inl e \<Rightarrow> (Inl e, r1)
         | Inr n1 \<Rightarrow>
            (let r2 = r1\<lparr>rosters :=
                        AList.update k (n1\<lparr>node_auto_authorize := auto_authorize r1\<rparr>) (rosters r1)\<rparr> in
             case lookup_node k r2 of
               Inl e \<Rightarrow> (Inl e, r2)
             | Inr n2 \<Rightarrow>
                (let r3 = r2\<lparr>rosters :=
                            AList.update k (n2\<lparr>node_auto_subscribe := auto_subscribe r2\<rparr>) (rosters r2)\<rparr>
                 in (lookup_node k r3, r3))))
      else (lookup_node k r, r))"

text \<open>The loop \<open>for node in ...entries(None, {}): self.add(node)\<close>.\<close>

fun add_all :: "node_defaults \<Rightarrow> ident list \<Rightarrow> Roster \<Rightarrow> Roster" where
  "add_all C [] r = r"
| "add_all C (node # nodes) r = add_all C nodes (add C node r)"

text \<open>
  \<open>__init__\<close>: lines 48 to 56. \<open>if self.db:\<close> is a test of truth: the enumeration
  runs for a datastore object that is true, and neither for \<open>None\<close> nor for an object
  that is false (which is stored all the same).
\<close>

definition Roster_init :: "node_defaults \<Rightarrow> xmpp \<Rightarrow> datastore option \<Rightarrow> Roster" where
  "Roster_init C x d =
     (let r = \<lparr>xmpp = x, db = d, auto_authorize = True, auto_subscribe = True,
               rosters = [], next_oid = 0\<rparr>
      in case db r of
           None \<Rightarrow> r
         | Some s \<Rightarrow> if truthy s then add_all C (entries s) r else r)"

text \<open>
  \<open>set_backend\<close>: lines 103 to 107. \<open>self.db\<close> is assigned first; \<open>self.db.entries\<close> on
  \<open>None\<close> is Python's \<open>AttributeError\<close>. The second loop runs over the keys of the
  dictionary and calls the node's own \<open>set_backend\<close> on \<open>self._rosters[node]\<close>.
\<close>

fun set_backend_nodes :: "datastore option \<Rightarrow> string list \<Rightarrow> Roster \<Rightarrow> (error + unit) \<times> Roster" where
  "set_backend_nodes d [] r = (Inr (), r)"
| "set_backend_nodes d (k # ks) r =
     (case lookup_node k r of
        Inl e \<Rightarrow> (Inl e, r)
      | Inr n \<Rightarrow>
          set_backend_nodes d ks
            (r\<lparr>rosters := AList.update k (node_set_backend d n) (rosters r)\<rparr>))"

definition set_backend :: "node_defaults \<Rightarrow> datastore option \<Rightarrow> Roster \<Rightarrow> (error + unit) \<times> Roster" where
  "set_backend C d r =
     (let r1 = r\<lparr>db := d\<rparr> in
      case db r1 of
        None \<Rightarrow> (Inl AttributeError, r1)
      | Some s \<Rightarrow>
          (let r2 = add_all C (entries s) r1
           in set_backend_nodes d (map fst (rosters r2)) r2))"

text \<open>
  \<open>reset\<close>: lines 114 and 115. The loop runs over \<open>__iter__\<close>, and the node is fetched
  through \<open>__getitem__\<close> (\<open>self[node]\<close>), not through the dictionary. The keys are
  visited as they stand when the loop starts; every one of them is present when its turn
  comes, so \<open>__getitem__\<close> adds nothing while the loop runs.
\<close>

fun reset_nodes :: "node_defaults \<Rightarrow> string list \<Rightarrow> Roster \<Rightarrow> (error + unit) \<times> Roster" where
  "reset_nodes C [] r = (Inr (), r)"
| "reset_nodes C (k # ks) r =
     (case getitem C (Str k) r of
        (Inl e, r') \<Rightarrow> (Inl e, r')
      | (Inr n, r') \<Rightarrow>
          reset_nodes C ks (r'\<lparr>rosters := AList.update k (node_reset n) (rosters r')\<rparr>))"

definition reset :: "node_defaults \<Rightarrow> Roster \<Rightarrow> (error + unit) \<times> Roster" where
  "reset C r = reset_nodes C (iter r) r"

text \<open>
  The class defines neither \<open>__setattr__\<close> nor properties: assigning one of the two
  defaults on a roster object stores the attribute and does nothing else.
\<close>

definition set_auto_authorize :: "bool \<Rightarrow> Roster \<Rightarrow> Roster" where
  "set_auto_authorize b r = r\<lparr>auto_authorize := b\<rparr>"

definition set_auto_subscribe :: "bool \<Rightarrow> Roster \<Rightarrow> Roster" where
  "set_auto_subscribe b r = r\<lparr>auto_subscribe := b\<rparr>"

subsection \<open>Auxiliary notions for the properties\<close>

text \<open>
  The node that \<open>__getitem__\<close> leaves in the dictionary for a key it did not hold: the
  node \<open>add\<close> constructed, with the two flags overwritten by the roster's defaults.
\<close>

definition created :: "node_defaults \<Rightarrow> string \<Rightarrow> Roster \<Rightarrow> RosterNode" where
  "created C k r = (RosterNode_init C (next_oid r) (xmpp r) k (db r))
      \<lparr>node_auto_authorize := auto_authorize r, node_auto_subscribe := auto_subscribe r\<rparr>"

text \<open>
  Concrete values on which the properties below are exercised: a node class whose own
  flags are both off (so that they differ from the roster's defaults, which start on),
  and the roster constructed without a datastore.
\<close>

definition ex_defaults :: node_defaults where
  "ex_defaults = \<lparr>own_auto_authorize = False, own_auto_subscribe = False\<rparr>"

definition ex_empty :: Roster where
  "ex_empty = Roster_init ex_defaults 0 None"

text \<open>
  Two datastores (ordinary objects, true) and the roster constructed from the first: it
  holds \<open>a@x\<close> and \<open>b@x\<close>; the second datastore reports \<open>a@x\<close> and \<open>c@x\<close>.
\<close>

definition ex_db :: datastore where
  "ex_db = \<lparr>db_id = 1, truthy = True, entries = [Str ''a@x'', Jid (JID ''b@x/home'')]\<rparr>"

definition ex_db2 :: datastore where
  "ex_db2 = \<lparr>db_id = 2, truthy = True, entries = [Jid (JID ''a@x/work''), Str ''c@x'']\<rparr>"

definition ex_roster :: Roster where
  "ex_roster = Roster_init ex_defaults 0 (Some ex_db)"

text \<open>
  The invariant of a roster: the keys of the dictionary are pairwise different, every node
  is filed under the identity it was constructed with, and the node objects are pairwise
  different (and older than the next object to be constructed).
\<close>

definition Roster_inv :: "Roster \<Rightarrow> bool" where
  "Roster_inv r =
     (distinct (map fst (rosters r)) \<and>
      list_all (\<lambda>(k, n). jid n = k \<and> oid n < next_oid r) (rosters r) \<and>
      distinct (map (\<lambda>(k, n). oid n) (rosters r)))"

text \<open>
  \<open>persists r r'\<close>: every key of \<open>r\<close> is a key of \<open>r'\<close> and holds the same node
  object there.
\<close>

definition persists :: "Roster \<Rightarrow> Roster \<Rightarrow> bool" where
  "persists r r' =
     list_all (\<lambda>(k, n). map_option oid (map_of (rosters r') k) = Some (oid n)) (rosters r)"

section \<open>Properties\<close>

subsection \<open>Individual calls\<close>

text \<open>Stores and reads on a dictionary that does not hold the key yet.\<close>

lemma update_absent: "k \<notin> fst ` set al \<Longrightarrow> AList.update k v al = al @ [(k, v)]"
  by (induction al) auto

lemma update_snoc: "k \<notin> fst ` set al \<Longrightarrow> AList.update k v (al @ [(k, w)]) = al @ [(k, v)]"
  by (induction al) auto

lemma map_of_snoc: "k \<notin> fst ` set al \<Longrightarrow> map_of (al @ [(k, w)]) k = Some w"
  by (induction al) auto

lemma add_absent:
  "to_key i \<notin> fst ` set (rosters r) \<Longrightarrow>
   add C i r = r\<lparr>rosters := rosters r @ [(to_key i, RosterNode_init C (next_oid r) (xmpp r) (to_key i) (db r))],
                next_oid := Suc (next_oid r)\<rparr>"
  by (simp add: add_def Let_def update_absent)

lemma add_present: "to_key i \<in> fst ` set (rosters r) \<Longrightarrow> add C i r = r"
  by (simp add: add_def Let_def)

lemma keys_add:
  "keys (add C i r) = (if to_key i \<in> set (keys r) then keys r else keys r @ [to_key i])"
  by (simp add: keys_def add_present add_absent)

lemma add_twice: "add C i (add C i r) = add C i r"
  by (cases "to_key i \<in> fst ` set (rosters r)") (simp_all add: add_present add_absent)

lemma getitem_present:
  "map_of (rosters r) (to_key i) = Some n \<Longrightarrow> getitem C i r = (Inr n, r)"
  by (auto simp: getitem_def lookup_node_def Let_def dest: map_of_SomeD  intro: rev_image_eqI)

lemma lookup_snoc:
  "k \<notin> fst ` set al \<Longrightarrow> rosters r = al @ [(k, w)] \<Longrightarrow> lookup_node k r = Inr w"
proof -
  assume a: "k \<notin> fst ` set al" and b: "rosters r = al @ [(k, w)]"
  have "map_of (rosters r) k = Some w"
    unfolding b by (rule map_of_snoc[OF a])
  then show ?thesis by (simp only: lookup_node_def option.case)
qed

lemma getitem_absent:
  assumes a: "to_key i \<notin> fst ` set (rosters r)"
  shows "getitem C i r = (Inr (created C (to_key i) r),
      r\<lparr>rosters := rosters r @ [(to_key i, created C (to_key i) r)], next_oid := Suc (next_oid r)\<rparr>)"
proof -
  define k where "k = to_key i"
  define n0 where "n0 = RosterNode_init C (next_oid r) (xmpp r) k (db r)"
  define r1 where "r1 = r\<lparr>rosters := rosters r @ [(k, n0)], next_oid := Suc (next_oid r)\<rparr>"
  define n1 where "n1 = n0\<lparr>node_auto_authorize := auto_authorize r\<rparr>"
  define r2 where "r2 = r1\<lparr>rosters := rosters r @ [(k, n1)]\<rparr>"
  define n2 where "n2 = n1\<lparr>node_auto_subscribe := auto_subscribe r\<rparr>"
  define r3 where "r3 = r2\<lparr>rosters := rosters r @ [(k, n2)]\<rparr>"
  have ka: "k \<notin> fst ` set (rosters r)" using a by (simp add: k_def)
  have add1: "add C (Str k) r = r1"
    using ka add_absent[of "Str k" r C] by (simp add: r1_def n0_def)
  have l1: "lookup_node k r1 = Inr n0"
    by (rule lookup_snoc[OF ka]) (simp add: r1_def)
  have u1: "r1\<lparr>rosters := AList.update k (n0\<lparr>node_auto_authorize := auto_authorize r1\<rparr>) (rosters r1)\<rparr> = r2"
    using ka by (simp add: r1_def r2_def n1_def update_snoc)
  have l2: "lookup_node k r2 = Inr n1"
    by (rule lookup_snoc[OF ka]) (simp add: r2_def)
  have u2: "r2\<lparr>rosters := AList.update k (n1\<lparr>node_auto_subscribe := auto_subscribe r2\<rparr>) (rosters r2)\<rparr> = r3"
    using ka by (simp add: r1_def r2_def r3_def n2_def update_snoc)
  have l3: "lookup_node k r3 = Inr n2"
    by (rule lookup_snoc[OF ka]) (simp add: r3_def)
  have "getitem C i r = (Inr n2, r3)"
    using ka by (simp add: getitem_def Let_def k_def[symmetric] add1 l1 u1 l2 u2 l3)
  moreover have "n2 = created C k r"
    by (simp add: n2_def n1_def n0_def created_def)
  moreover have "r3 = r\<lparr>rosters := rosters r @ [(k, n2)], next_oid := Suc (next_oid r)\<rparr>"
    by (simp add: r3_def r2_def r1_def)
  ultimately show ?thesis by (simp add: k_def)
qed

subsection \<open>Lookup, creation and the key of an identity\<close>

lemma count_list_distinct: "distinct xs \<Longrightarrow> x \<in> set xs \<Longrightarrow> count_list xs x = 1"
  by (induction xs) auto

lemma map_of_present: "k \<in> fst ` set al \<Longrightarrow> \<exists>n. map_of al k = Some n"
  by (induction al) auto

lemma getitem_total:
  "\<exists>n r1. getitem C i r = (Inr n, r1) \<and> map_of (rosters r1) (to_key i) = Some n \<and>
      set (keys r1) = insert (to_key i) (set (keys r))"
proof (cases "to_key i \<in> fst ` set (rosters r)")
  case True
  then obtain n where n: "map_of (rosters r) (to_key i) = Some n"
    using map_of_present by fastforce
  have "insert (to_key i) (set (keys r)) = set (keys r)"
    using True by (auto simp: keys_def)
  with n getitem_present[OF n, of C] show ?thesis by simp
next
  case False
  have "map_of (rosters r @ [(to_key i, created C (to_key i) r)]) (to_key i)
          = Some (created C (to_key i) r)"
    by (rule map_of_snoc[OF False])
  then show ?thesis
    by (simp add: getitem_absent[OF False, of C] keys_def del: map_of_append)
qed

text \<open>
  Claim C1, as the code has it. The key of an identity value is what the first two lines
  of \<open>__getitem__\<close> make of it: the bare form of a JID object, a plain string exactly as
  given. For every pair of identity values with the same key, \<open>__getitem__\<close> on the
  first succeeds and returns a node, \<open>__getitem__\<close> on the second then returns that very
  node and changes nothing, and the dictionary has gained at most the one key.
\<close>

theorem getitem_same_key_same_node:
  assumes "to_key i1 = to_key i2"
  shows "\<exists>n r1. getitem C i1 r = (Inr n, r1) \<and> getitem C i2 r1 = (Inr n, r1) \<and>
           set (keys r1) = insert (to_key i1) (set (keys r))"
proof -
  obtain n r1 where g: "getitem C i1 r = (Inr n, r1)"
      and m: "map_of (rosters r1) (to_key i1) = Some n"
      and k: "set (keys r1) = insert (to_key i1) (set (keys r))"
    using getitem_total[of C i1 r] by blast
  have "getitem C i2 r1 = (Inr n, r1)"
    using m assms by (simp add: getitem_present)
  with g k show ?thesis by blast
qed

text \<open>
  The full form as a JID object and the bare form as a plain string, on the empty roster:
  one node, filed under \<open>user@example.com\<close>.
\<close>

theorem getitem_same_key_same_node_witness:
  "to_key (Jid (JID ''user@example.com/resource'')) = to_key (Str ''user@example.com'') \<and>
   (\<exists>n r1. getitem ex_defaults (Jid (JID ''user@example.com/resource'')) ex_empty = (Inr n, r1) \<and>
       getitem ex_defaults (Str ''user@example.com'') r1 = (Inr n, r1) \<and>
       set (keys r1) = {''user@example.com''})"
proof -
  have h: "to_key (Jid (JID ''user@example.com/resource'')) = to_key (Str ''user@example.com'')"
    by (simp add: bareForm_def)
  have e: "keys ex_empty = []"
    by (simp add: ex_empty_def Roster_init_def keys_def)
  show ?thesis
    using h getitem_same_key_same_node[OF h, of ex_defaults ex_empty] by (simp add: e)
qed

text \<open>
  Claim C1 as stated fails for plain strings: \<open>isinstance(key, JID)\<close> is false for a
  string, so no resource is stripped from it. The strings \<open>user@example.com/resource\<close>
  and \<open>user@example.com\<close> have the same bare form, yet the two lookups return two
  different node objects and leave two keys, the first of them the full form.
\<close>

theorem getitem_plain_string_counterexample:
  "bare_form (Str ''user@example.com/resource'') = bare_form (Str ''user@example.com'') \<and>
   map_sum id oid (fst (getitem ex_defaults (Str ''user@example.com/resource'') ex_empty)) = Inr 0 \<and>
   map_sum id oid (fst (getitem ex_defaults (Str ''user@example.com'')
      (snd (getitem ex_defaults (Str ''user@example.com/resource'') ex_empty)))) = Inr 1 \<and>
   keys (snd (getitem ex_defaults (Str ''user@example.com/resource'') ex_empty))
      = [''user@example.com/resource''] \<and>
   keys (snd (getitem ex_defaults (Str ''user@example.com'')
      (snd (getitem ex_defaults (Str ''user@example.com/resource'') ex_empty))))
      = [''user@example.com/resource'', ''user@example.com'']"
  by (simp add: ex_empty_def ex_defaults_def Roster_init_def getitem_def add_def lookup_node_def
      keys_def RosterNode_init_def bareForm_def Let_def)

text \<open>
  Claim C2, as the code has it. In a dictionary (keys pairwise different) a second
  \<open>add\<close> of the same identity leaves the roster exactly as the first left it, and the
  key of the identity (the bare form of a JID object, a plain string as given) is among
  the keys exactly once.
\<close>

theorem add_idempotent:
  assumes "distinct (keys r)"
  shows "add C i (add C i r) = add C i r \<and>
         count_list (keys (add C i (add C i r))) (to_key i) = 1"
proof -
  have "distinct (keys (add C i r))" "to_key i \<in> set (keys (add C i r))"
    using assms by (auto simp: keys_add)
  then have "count_list (keys (add C i r)) (to_key i) = 1"
    by (rule count_list_distinct)
  then show ?thesis by (simp add: add_twice)
qed

text \<open>Adding the JID object of \<open>user@example.com/resource\<close> twice to the empty roster.\<close>

theorem add_idempotent_witness:
  "distinct (keys ex_empty) \<and>
   add ex_defaults (Jid (JID ''user@example.com/resource''))
     (add ex_defaults (Jid (JID ''user@example.com/resource'')) ex_empty)
     = add ex_defaults (Jid (JID ''user@example.com/resource'')) ex_empty \<and>
   count_list (keys (add ex_defaults (Jid (JID ''user@example.com/resource''))
     (add ex_defaults (Jid (JID ''user@example.com/resource'')) ex_empty))) ''user@example.com'' = 1"
proof -
  have h: "distinct (keys ex_empty)"
    by (simp add: ex_empty_def Roster_init_def keys_def)
  have k: "to_key (Jid (JID ''user@example.com/resource'')) = ''user@example.com''"
    by (simp add: bareForm_def)
  show ?thesis
    using h add_idempotent[OF h, of ex_defaults "Jid (JID ''user@example.com/resource'')"]
    unfolding k by blast
qed

text \<open>
  Claim C2 as stated fails for a plain string in full form: after two calls of \<open>add\<close>
  the only key is the full form, and the bare form of the identity is not among the keys.
\<close>

theorem add_plain_string_counterexample:
  "count_list (keys (add ex_defaults (Str ''user@example.com/resource'')
      (add ex_defaults (Str ''user@example.com/resource'') ex_empty)))
      (bare_form (Str ''user@example.com/resource'')) = 0 \<and>
   keys (add ex_defaults (Str ''user@example.com/resource'')
      (add ex_defaults (Str ''user@example.com/resource'') ex_empty)) = [''user@example.com/resource'']"
  by (simp add: ex_empty_def ex_defaults_def Roster_init_def add_def keys_def bareForm_def Let_def)

subsection \<open>Changing the datastore without a datastore\<close>

text \<open>
  Claim C6. \<open>set_backend\<close> with \<open>None\<close> does not complete: the attribute is assigned,
  and the enumeration call on \<open>None\<close>, made before any test of the argument, raises
  (Python's \<open>AttributeError\<close>, the fault the spec files under \<open>PreconditionFailed\<close>).
  No node has been added or touched at that point.
\<close>

theorem set_backend_None_fails:
  "set_backend C None r = (Inl AttributeError, r\<lparr>db := None\<rparr>)"
  by (simp add: set_backend_def)

subsection \<open>Lookup of a key that is present\<close>

text \<open>
  Claim C10. When the key of the identity is in the dictionary, \<open>__getitem__\<close> returns
  the stored node and the roster is left exactly as it was: no key is added and no field
  of the node, the two flags included, is written.
\<close>

theorem getitem_existing_is_read:
  assumes "map_of (rosters r) (to_key i) = Some n"
  shows "getitem C i r = (Inr n, r)"
  using assms by (rule getitem_present)

text \<open>A node added for \<open>a@x\<close> and looked up through the JID object of \<open>a@x/home\<close>.\<close>

theorem getitem_existing_is_read_witness:
  "map_of (rosters (add ex_defaults (Str ''a@x'') ex_empty)) (to_key (Jid (JID ''a@x/home'')))
     = Some (RosterNode_init ex_defaults 0 0 ''a@x'' None) \<and>
   getitem ex_defaults (Jid (JID ''a@x/home'')) (add ex_defaults (Str ''a@x'') ex_empty)
     = (Inr (RosterNode_init ex_defaults 0 0 ''a@x'' None), add ex_defaults (Str ''a@x'') ex_empty)"
proof -
  have h: "map_of (rosters (add ex_defaults (Str ''a@x'') ex_empty)) (to_key (Jid (JID ''a@x/home'')))
     = Some (RosterNode_init ex_defaults 0 0 ''a@x'' None)"
    by (simp add: ex_empty_def Roster_init_def add_def bareForm_def Let_def)
  show ?thesis
    using h getitem_existing_is_read[OF h, of ex_defaults] by simp
qed

subsection \<open>No validation of identities\<close>

text \<open>
  Claim C8, as the code has it. Neither \<open>add\<close> nor \<open>__getitem__\<close> examines the
  identity: for every identity value, well formed or not, \<open>add\<close> files a node under its
  key and \<open>__getitem__\<close> succeeds and returns the node filed under its key. No error is
  signalled for any identity value.
\<close>

theorem no_identity_validation:
  "to_key i \<in> set (keys (add C i r)) \<and>
   (\<exists>n r1. getitem C i r = (Inr n, r1) \<and> map_of (rosters r1) (to_key i) = Some n)"
  using getitem_total[of C i r] by (auto simp: keys_add)

text \<open>
  Claim C8 as stated fails: the empty string is no identity (it has no domain part), and
  both operations go on to use it as a key; the node returned has the empty string as its
  JID.
\<close>

theorem malformed_identity_counterexample:
  "keys (add ex_defaults (Str []) ex_empty) = [[]] \<and>
   map_sum id jid (fst (getitem ex_defaults (Str []) ex_empty)) = Inr [] \<and>
   keys (snd (getitem ex_defaults (Str []) ex_empty)) = [[]]"
  by (simp add: ex_empty_def ex_defaults_def Roster_init_def getitem_def add_def lookup_node_def
      keys_def RosterNode_init_def Let_def)

subsection \<open>The loops\<close>

text \<open>
  Each of the two loops over the dictionary visits the keys in order; when the keys are
  pairwise different (as the keys of a dictionary are), the loop as a whole applies the
  node's method once to every node and does nothing else.
\<close>

lemma map_of_mid: "k \<notin> fst ` set pre \<Longrightarrow> map_of (pre @ (k, n) # post) k = Some n"
  by (induction pre) auto

lemma update_mid:
  "k \<notin> fst ` set pre \<Longrightarrow> AList.update k v (pre @ (k, n) # post) = pre @ (k, v) # post"
  by (induction pre) auto

lemma set_backend_nodes_suffix:
  "distinct (map fst (pre @ post)) \<Longrightarrow> rosters r = pre @ post \<Longrightarrow>
   set_backend_nodes d (map fst post) r =
     (Inr (), r\<lparr>rosters := pre @ map (\<lambda>(k, n). (k, node_set_backend d n)) post\<rparr>)"
proof (induction post arbitrary: pre r)
  case Nil
  then show ?case by simp
next
  case (Cons p post)
  obtain k n where p: "p = (k, n)" by (cases p)
  have kpre: "k \<notin> fst ` set pre"
    using Cons.prems(1) by (auto simp: p)
  have look: "lookup_node k r = Inr n"
    using map_of_mid[OF kpre, of n post] Cons.prems(2)
    by (simp only: lookup_node_def p option.case)
  let ?v = "node_set_backend d n"
  let ?r = "r\<lparr>rosters := AList.update k ?v (rosters r)\<rparr>"
  have upd: "rosters ?r = (pre @ [(k, ?v)]) @ post"
    using update_mid[OF kpre, of ?v n post] Cons.prems(2) by (simp add: p)
  have dist: "distinct (map fst ((pre @ [(k, ?v)]) @ post))"
    using Cons.prems(1) by (simp add: p)
  have "set_backend_nodes d (map fst post) ?r =
     (Inr (), ?r\<lparr>rosters := (pre @ [(k, ?v)]) @ map (\<lambda>(k, n). (k, node_set_backend d n)) post\<rparr>)"
    by (rule Cons.IH[OF dist upd])
  then show ?case
    by (simp add: p look)
qed

lemma set_backend_nodes_all:
  "distinct (map fst (rosters r)) \<Longrightarrow>
   set_backend_nodes d (map fst (rosters r)) r =
     (Inr (), r\<lparr>rosters := map (\<lambda>(k, n). (k, node_set_backend d n)) (rosters r)\<rparr>)"
  using set_backend_nodes_suffix[of "[]" "rosters r" r d] by simp

lemma reset_nodes_suffix:
  "distinct (map fst (pre @ post)) \<Longrightarrow> rosters r = pre @ post \<Longrightarrow>
   reset_nodes C (map fst post) r =
     (Inr (), r\<lparr>rosters := pre @ map (\<lambda>(k, n). (k, node_reset n)) post\<rparr>)"
proof (induction post arbitrary: pre r)
  case Nil
  then show ?case by simp
next
  case (Cons p post)
  obtain k n where p: "p = (k, n)" by (cases p)
  have kpre: "k \<notin> fst ` set pre"
    using Cons.prems(1) by (auto simp: p)
  have "map_of (rosters r) (to_key (Str k)) = Some n"
    using map_of_mid[OF kpre, of n post] Cons.prems(2) by (simp only: p to_key.simps)
  then have get: "getitem C (Str k) r = (Inr n, r)"
    by (rule getitem_present)
  let ?v = "node_reset n"
  let ?r = "r\<lparr>rosters := AList.update k ?v (rosters r)\<rparr>"
  have upd: "rosters ?r = (pre @ [(k, ?v)]) @ post"
    using update_mid[OF kpre, of ?v n post] Cons.prems(2) by (simp add: p)
  have dist: "distinct (map fst ((pre @ [(k, ?v)]) @ post))"
    using Cons.prems(1) by (simp add: p)
  have "reset_nodes C (map fst post) ?r =
     (Inr (), ?r\<lparr>rosters := (pre @ [(k, ?v)]) @ map (\<lambda>(k, n). (k, node_reset n)) post\<rparr>)"
    by (rule Cons.IH[OF dist upd])
  then show ?case
    by (simp add: p get)
qed

lemma reset_all:
  "distinct (map fst (rosters r)) \<Longrightarrow>
   reset C r = (Inr (), r\<lparr>rosters := map (\<lambda>(k, n). (k, node_reset n)) (rosters r)\<rparr>)"
  using reset_nodes_suffix[of "[]" "rosters r" r C] by (simp add: reset_def iter_def)

lemma keys_add_all:
  "set (keys (add_all C nodes r)) = set (keys r) \<union> to_key ` set nodes"
  by (induction nodes arbitrary: r) (auto simp: keys_add)

lemma distinct_add_all:
  "distinct (keys r) \<Longrightarrow> distinct (keys (add_all C nodes r))"
  by (induction nodes arbitrary: r) (auto simp: keys_add)

lemma map_of_add:
  "map_of (rosters r) k = Some n \<Longrightarrow> map_of (rosters (add C i r)) k = Some n"
  by (cases "to_key i \<in> fst ` set (rosters r)")
     (auto simp: add_present add_absent map_add_def map_of_eq_None_iff split: option.splits)

lemma map_of_add_all:
  "map_of (rosters r) k = Some n \<Longrightarrow> map_of (rosters (add_all C nodes r)) k = Some n"
  by (induction nodes arbitrary: r) (auto simp: map_of_add)

lemma entry_add:
  "(k, n) \<in> set (rosters (add C i r)) \<Longrightarrow>
   (k, n) \<in> set (rosters r) \<or>
   (k \<notin> fst ` set (rosters r) \<and> n = RosterNode_init C (next_oid r) (xmpp r) k (db r))"
  by (cases "to_key i \<in> fst ` set (rosters r)") (auto simp: add_present add_absent)

lemma db_add [simp]: "db (add C i r) = db r"
  by (simp add: add_def Let_def)

lemma db_add_all [simp]: "db (add_all C nodes r) = db r"
  by (induction nodes arbitrary: r) auto

lemma flags_add [simp]: "auto_authorize (add C i r) = auto_authorize r" "auto_subscribe (add C i r) = auto_subscribe r"
  by (simp_all add: add_def Let_def)

lemma entry_add_all:
  "(k, n) \<in> set (rosters (add_all C nodes r)) \<Longrightarrow>
   (k, n) \<in> set (rosters r) \<or>
   (k \<notin> fst ` set (rosters r) \<and> (\<exists>i x. n = RosterNode_init C i x k (db r)))"
proof (induction nodes arbitrary: r)
  case Nil
  then show ?case by simp
next
  case (Cons a nodes)
  from Cons.IH[of "add C a r"] Cons.prems
  have "(k, n) \<in> set (rosters (add C a r)) \<or>
     (k \<notin> fst ` set (rosters (add C a r)) \<and> (\<exists>i x. n = RosterNode_init C i x k (db r)))"
    by simp
  then show ?case
  proof
    assume "(k, n) \<in> set (rosters (add C a r))"
    from entry_add[OF this] show ?thesis by blast
  next
    assume a: "k \<notin> fst ` set (rosters (add C a r)) \<and> (\<exists>i x. n = RosterNode_init C i x k (db r))"
    have "set (keys r) \<subseteq> set (keys (add C a r))"
      by (simp add: keys_add subset_insertI)
    then have "fst ` set (rosters r) \<subseteq> fst ` set (rosters (add C a r))"
      by (simp add: keys_def)
    with a show ?thesis by blast
  qed
qed

lemma set_backend_Some:
  assumes "distinct (keys r)"
  shows "set_backend C (Some s) r =
     (Inr (), (add_all C (entries s) (r\<lparr>db := Some s\<rparr>))
        \<lparr>rosters := map (\<lambda>(k, n). (k, node_set_backend (Some s) n))
                      (rosters (add_all C (entries s) (r\<lparr>db := Some s\<rparr>)))\<rparr>)"
proof -
  have "distinct (keys (r\<lparr>db := Some s\<rparr>))"
    using assms by (simp add: keys_def)
  then have "distinct (map fst (rosters (add_all C (entries s) (r\<lparr>db := Some s\<rparr>))))"
    using distinct_add_all[of "r\<lparr>db := Some s\<rparr>" C "entries s"] by (simp add: keys_def)
  then show ?thesis
    by (simp add: set_backend_def Let_def set_backend_nodes_all)
qed

subsection \<open>Where the defaults are written\<close>

lemma own_flags_add_all:
  "(k, n) \<in> set (rosters (add_all C nodes r)) \<Longrightarrow> (k, n) \<notin> set (rosters r) \<Longrightarrow>
   node_auto_authorize n = own_auto_authorize C \<and> node_auto_subscribe n = own_auto_subscribe C"
  using entry_add_all[of k n C nodes r] by (auto simp: RosterNode_init_def)

text \<open>
  Claim C3. The nodes of a roster constructed with a datastore are exactly those the
  datastore reports (none when the datastore object is false: the constructor then does
  not enumerate it), and each carries the flags its own constructor gave it: the roster's
  defaults are not written into them. A node that \<open>__getitem__\<close> creates (the key was
  absent) carries the values the roster's two defaults have at that moment.
\<close>

theorem defaults_written_only_by_getitem:
  assumes "to_key i \<notin> set (keys r)"
  shows "list_all (\<lambda>n. node_auto_authorize n = own_auto_authorize C \<and>
                       node_auto_subscribe n = own_auto_subscribe C)
           (map snd (rosters (Roster_init C x (Some s)))) \<and>
         set (keys (Roster_init C x (Some s)))
           = (if truthy s then to_key ` set (entries s) else {}) \<and>
         (\<exists>n r1. getitem C i r = (Inr n, r1) \<and>
            map_of (rosters r1) (to_key i) = Some n \<and>
            node_auto_authorize n = auto_authorize r \<and>
            node_auto_subscribe n = auto_subscribe r)"
proof -
  let ?r0 = "\<lparr>xmpp = x, db = Some s, auto_authorize = True, auto_subscribe = True,
               rosters = [], next_oid = 0\<rparr>"
  have init: "Roster_init C x (Some s) = (if truthy s then add_all C (entries s) ?r0 else ?r0)"
    by (simp add: Roster_init_def)
  have "\<forall>p \<in> set (rosters (add_all C (entries s) ?r0)).
          node_auto_authorize (snd p) = own_auto_authorize C \<and>
          node_auto_subscribe (snd p) = own_auto_subscribe C"
  proof
    fix p assume "p \<in> set (rosters (add_all C (entries s) ?r0))"
    then have "(fst p, snd p) \<in> set (rosters (add_all C (entries s) ?r0))" by simp
    moreover have "(fst p, snd p) \<notin> set (rosters ?r0)" by simp
    ultimately show "node_auto_authorize (snd p) = own_auto_authorize C \<and>
          node_auto_subscribe (snd p) = own_auto_subscribe C"
      by (rule own_flags_add_all)
  qed
  then have seeded: "list_all (\<lambda>n. node_auto_authorize n = own_auto_authorize C \<and>
                       node_auto_subscribe n = own_auto_subscribe C)
           (map snd (rosters (Roster_init C x (Some s))))"
    by (cases "truthy s") (simp_all add: init list_all_iff)
  have ks: "set (keys (Roster_init C x (Some s)))
              = (if truthy s then to_key ` set (entries s) else {})"
  proof (cases "truthy s")
    case True
    then show ?thesis
      by (simp add: init keys_add_all) (simp add: keys_def)
  next
    case False
    then show ?thesis
      by (simp add: init keys_def)
  qed
  have absent: "to_key i \<notin> fst ` set (rosters r)"
    using assms by (simp add: keys_def)
  have "map_of (rosters r @ [(to_key i, created C (to_key i) r)]) (to_key i)
          = Some (created C (to_key i) r)"
    by (rule map_of_snoc[OF absent])
  then have "\<exists>n r1. getitem C i r = (Inr n, r1) \<and>
            map_of (rosters r1) (to_key i) = Some n \<and>
            node_auto_authorize n = auto_authorize r \<and>
            node_auto_subscribe n = auto_subscribe r"
    by (simp add: getitem_absent[OF absent] created_def del: map_of_append)
  with seeded ks show ?thesis by blast
qed

text \<open>
  With a node class whose own flags are off: the seeded nodes have both flags off although
  the roster's defaults are on; after the first default is switched off, the node created
  by a lookup of \<open>c@x\<close> has the first flag off and the second on.
\<close>

theorem defaults_written_only_by_getitem_witness:
  "to_key (Str ''c@x'') \<notin> set (keys (set_auto_authorize False ex_roster)) \<and>
   auto_authorize ex_roster = True \<and> auto_subscribe ex_roster = True \<and>
   map (\<lambda>(k, n). (k, node_auto_authorize n, node_auto_subscribe n)) (rosters ex_roster)
     = [(''a@x'', False, False), (''b@x'', False, False)] \<and>
   list_all (\<lambda>n. node_auto_authorize n = own_auto_authorize ex_defaults \<and>
                       node_auto_subscribe n = own_auto_subscribe ex_defaults)
           (map snd (rosters (Roster_init ex_defaults 0 (Some ex_db)))) \<and>
   (\<exists>n r1. getitem ex_defaults (Str ''c@x'') (set_auto_authorize False ex_roster) = (Inr n, r1) \<and>
            map_of (rosters r1) ''c@x'' = Some n \<and>
            node_auto_authorize n = False \<and>
            node_auto_subscribe n = True)"
proof -
  have r: "rosters ex_roster =
     [(''a@x'', RosterNode_init ex_defaults 0 0 ''a@x'' (Some ex_db)),
      (''b@x'', RosterNode_init ex_defaults 1 0 ''b@x'' (Some ex_db))]"
    "auto_authorize ex_roster = True" "auto_subscribe ex_roster = True"
    by (simp_all add: ex_roster_def Roster_init_def add_def Let_def ex_db_def bareForm_def)
  have h: "to_key (Str ''c@x'') \<notin> set (keys (set_auto_authorize False ex_roster))"
    by (simp add: keys_def set_auto_authorize_def r)
  have f: "map (\<lambda>(k, n). (k, node_auto_authorize n, node_auto_subscribe n)) (rosters ex_roster)
     = [(''a@x'', False, False), (''b@x'', False, False)]"
    by (simp add: r RosterNode_init_def ex_defaults_def)
  show ?thesis
    using h f r(2,3)
      defaults_written_only_by_getitem[OF h, of ex_defaults 0 ex_db]
    by (simp add: set_auto_authorize_def)
qed

text \<open>
  Claim C4. Assigning either default of the roster leaves every node that is present as
  it was, its two flags included: the dictionary still holds the same node under the key,
  and a lookup after the assignment returns that unchanged node.
\<close>

theorem defaults_not_live_linked:
  assumes "map_of (rosters r) k = Some n"
  shows "map_of (rosters (set_auto_authorize b r)) k = Some n \<and>
         map_of (rosters (set_auto_subscribe b r)) k = Some n \<and>
         getitem C (Str k) (set_auto_authorize b r) = (Inr n, set_auto_authorize b r) \<and>
         getitem C (Str k) (set_auto_subscribe b r) = (Inr n, set_auto_subscribe b r)"
proof -
  have a: "map_of (rosters (set_auto_authorize b r)) (to_key (Str k)) = Some n"
    using assms by (simp add: set_auto_authorize_def)
  have s: "map_of (rosters (set_auto_subscribe b r)) (to_key (Str k)) = Some n"
    using assms by (simp add: set_auto_subscribe_def)
  from getitem_present[OF a, of C] getitem_present[OF s, of C] a s
  show ?thesis by simp
qed

text \<open>The seeded node \<open>a@x\<close> keeps its flag off when the roster's default is set on.\<close>

theorem defaults_not_live_linked_witness:
  "map_of (rosters ex_roster) ''a@x'' = Some (RosterNode_init ex_defaults 0 0 ''a@x'' (Some ex_db)) \<and>
   node_auto_authorize (RosterNode_init ex_defaults 0 0 ''a@x'' (Some ex_db)) = False \<and>
   auto_authorize (set_auto_authorize True ex_roster) = True \<and>
   map_of (rosters (set_auto_authorize True ex_roster)) ''a@x''
      = Some (RosterNode_init ex_defaults 0 0 ''a@x'' (Some ex_db)) \<and>
   getitem ex_defaults (Str ''a@x'') (set_auto_authorize True ex_roster)
      = (Inr (RosterNode_init ex_defaults 0 0 ''a@x'' (Some ex_db)), set_auto_authorize True ex_roster)"
proof -
  have h: "map_of (rosters ex_roster) ''a@x'' = Some (RosterNode_init ex_defaults 0 0 ''a@x'' (Some ex_db))"
    by (simp add: ex_roster_def Roster_init_def add_def Let_def ex_db_def bareForm_def)
  have f: "node_auto_authorize (RosterNode_init ex_defaults 0 0 ''a@x'' (Some ex_db)) = False"
    by (simp add: RosterNode_init_def ex_defaults_def)
  have g: "auto_authorize (set_auto_authorize True ex_roster) = True"
    by (simp add: set_auto_authorize_def)
  show ?thesis
    using h f g defaults_not_live_linked[OF h, of True ex_defaults] by blast
qed

subsection \<open>Changing the datastore\<close>

lemma keys_map_nodes: "keys (r\<lparr>rosters := map (\<lambda>(k, n). (k, f n)) al\<rparr>) = map fst al"
  by (simp add: keys_def case_prod_beta)

lemma map_of_map_nodes:
  "map_of (map (\<lambda>(k, n). (k, f n)) al) k = map_option f (map_of al k)"
  by (induction al) auto

lemma map_of_entry: "k \<in> fst ` set al \<Longrightarrow> \<exists>n. map_of al k = Some n \<and> (k, n) \<in> set al"
  by (induction al) auto

lemma calls_add_all:
  assumes "k \<in> set (keys (add_all C nodes r))"
  shows "\<exists>n. map_of (rosters (add_all C nodes r)) k = Some n \<and>
           set_backend_calls n =
             (case map_of (rosters r) k of Some m \<Rightarrow> set_backend_calls m | None \<Rightarrow> [])"
proof (cases "map_of (rosters r) k")
  case (Some m)
  then show ?thesis by (simp add: map_of_add_all)
next
  case None
  from assms obtain n where n: "map_of (rosters (add_all C nodes r)) k = Some n"
      and e: "(k, n) \<in> set (rosters (add_all C nodes r))"
    using map_of_entry[of k "rosters (add_all C nodes r)"] by (auto simp: keys_def)
  have "(k, n) \<notin> set (rosters r)"
    using None by (auto simp: map_of_eq_None_iff intro: rev_image_eqI)
  with entry_add_all[OF e] have "set_backend_calls n = []"
    by (auto simp: RosterNode_init_def)
  with n None show ?thesis by simp
qed

lemma set_backend_node:
  assumes d: "distinct (keys r)" and k: "k \<in> set (keys r) \<union> to_key ` set (entries s)"
  shows "\<exists>n'. map_of (rosters (snd (set_backend C (Some s) r))) k = Some n' \<and>
           node_db n' = Some s \<and>
           set_backend_calls n' =
             (case map_of (rosters r) k of Some m \<Rightarrow> set_backend_calls m | None \<Rightarrow> []) @ [Some s]"
proof -
  let ?r1 = "r\<lparr>db := Some s\<rparr>"
  have "k \<in> set (keys (add_all C (entries s) ?r1))"
    using k by (simp add: keys_add_all) (simp add: keys_def)
  from calls_add_all[OF this] obtain n where
    n: "map_of (rosters (add_all C (entries s) ?r1)) k = Some n"
    and c: "set_backend_calls n =
             (case map_of (rosters r) k of Some m \<Rightarrow> set_backend_calls m | None \<Rightarrow> [])"
    by auto
  have "map_of (rosters (snd (set_backend C (Some s) r))) k = Some (node_set_backend (Some s) n)"
    by (simp add: set_backend_Some[OF d] map_of_map_nodes n)
  moreover have "node_db (node_set_backend (Some s) n) = Some s"
    by (simp add: node_set_backend_def)
  moreover have "set_backend_calls (node_set_backend (Some s) n) = set_backend_calls n @ [Some s]"
    by (simp add: node_set_backend_def)
  ultimately show ?thesis using c by simp
qed

lemma set_backend_keys:
  assumes d: "distinct (keys r)"
  shows "set (keys (snd (set_backend C (Some s) r))) = set (keys r) \<union> to_key ` set (entries s)"
    and "distinct (keys (snd (set_backend C (Some s) r)))"
    and "db (snd (set_backend C (Some s) r)) = Some s"
proof -
  let ?r1 = "r\<lparr>db := Some s\<rparr>"
  have k: "keys (snd (set_backend C (Some s) r)) = keys (add_all C (entries s) ?r1)"
    by (simp add: set_backend_Some[OF d] keys_map_nodes) (simp add: keys_def)
  show "set (keys (snd (set_backend C (Some s) r))) = set (keys r) \<union> to_key ` set (entries s)"
    by (simp add: k keys_add_all) (simp add: keys_def)
  have "distinct (keys ?r1)" using d by (simp add: keys_def)
  then show "distinct (keys (snd (set_backend C (Some s) r)))"
    by (simp add: k distinct_add_all)
  show "db (snd (set_backend C (Some s) r)) = Some s"
    by (simp add: set_backend_Some[OF d])
qed

text \<open>
  Claim C5. On a roster that holds the identities \<open>a\<close> and \<open>b\<close>, \<open>set_backend\<close> with
  a datastore whose enumeration reports \<open>a\<close> and \<open>c\<close> completes; afterwards the keys
  are exactly \<open>a\<close>, \<open>b\<close> and \<open>c\<close>, each once, and every one of the three nodes has
  received exactly one call of its own \<open>set_backend\<close>, with the new datastore: its record
  of calls is what it was before (empty for the node just created) followed by that one
  call.
\<close>

theorem set_backend_merges_and_rebinds:
  assumes "distinct (keys r)" and "set (keys r) = {a, b}" and "to_key ` set (entries s) = {a, c}"
  shows "\<exists>r'. set_backend C (Some s) r = (Inr (), r') \<and>
           set (keys r') = {a, b, c} \<and> distinct (keys r') \<and> db r' = Some s \<and>
           (\<forall>k \<in> {a, b, c}. \<exists>n'. map_of (rosters r') k = Some n' \<and> node_db n' = Some s \<and>
              set_backend_calls n' =
                (case map_of (rosters r) k of Some m \<Rightarrow> set_backend_calls m | None \<Rightarrow> [])
                @ [Some s])"
proof -
  obtain r' where r': "set_backend C (Some s) r = (Inr (), r')"
    using set_backend_Some[OF assms(1), of C s] by simp
  then have s: "snd (set_backend C (Some s) r) = r'" by simp
  have ks: "set (keys r') = {a, b, c}"
    using set_backend_keys(1)[OF assms(1), of C s] assms(2,3) by (auto simp: s)
  have "\<forall>k \<in> {a, b, c}. \<exists>n'. map_of (rosters r') k = Some n' \<and> node_db n' = Some s \<and>
              set_backend_calls n' =
                (case map_of (rosters r) k of Some m \<Rightarrow> set_backend_calls m | None \<Rightarrow> [])
                @ [Some s]"
  proof
    fix k assume "k \<in> {a, b, c}"
    then have "k \<in> set (keys r) \<union> to_key ` set (entries s)"
      using assms(2,3) by auto
    from set_backend_node[OF assms(1) this, of C] show
      "\<exists>n'. map_of (rosters r') k = Some n' \<and> node_db n' = Some s \<and>
              set_backend_calls n' =
                (case map_of (rosters r) k of Some m \<Rightarrow> set_backend_calls m | None \<Rightarrow> [])
                @ [Some s]"
      by (simp add: s)
  qed
  with r' ks set_backend_keys(2,3)[OF assms(1), of C s] show ?thesis
    by (simp add: s)
qed

text \<open>The roster seeded with \<open>a@x\<close> and \<open>b@x\<close>, and the datastore reporting \<open>a@x\<close> and \<open>c@x\<close>.\<close>

theorem set_backend_merges_and_rebinds_witness:
  "distinct (keys ex_roster) \<and> set (keys ex_roster) = {''a@x'', ''b@x''} \<and>
   to_key ` set (entries ex_db2) = {''a@x'', ''c@x''} \<and>
   (\<exists>r'. set_backend ex_defaults (Some ex_db2) ex_roster = (Inr (), r') \<and>
      set (keys r') = {''a@x'', ''b@x'', ''c@x''} \<and>
      (\<exists>n'. map_of (rosters r') ''a@x'' = Some n' \<and> set_backend_calls n' = [Some ex_db2]) \<and>
      (\<exists>n'. map_of (rosters r') ''b@x'' = Some n' \<and> set_backend_calls n' = [Some ex_db2]) \<and>
      (\<exists>n'. map_of (rosters r') ''c@x'' = Some n' \<and> set_backend_calls n' = [Some ex_db2]))"
proof -
  have r: "rosters ex_roster =
     [(''a@x'', RosterNode_init ex_defaults 0 0 ''a@x'' (Some ex_db)),
      (''b@x'', RosterNode_init ex_defaults 1 0 ''b@x'' (Some ex_db))]"
    by (simp add: ex_roster_def Roster_init_def add_def Let_def ex_db_def bareForm_def)
  have h1: "distinct (keys ex_roster)" by (simp add: keys_def r)
  have h2: "set (keys ex_roster) = {''a@x'', ''b@x''}" by (simp add: keys_def r)
  have h3: "to_key ` set (entries ex_db2) = {''a@x'', ''c@x''}"
    by (simp add: ex_db2_def bareForm_def)
  have c: "set_backend_calls (RosterNode_init ex_defaults 0 0 ''a@x'' (Some ex_db)) = []"
     "set_backend_calls (RosterNode_init ex_defaults 1 0 ''b@x'' (Some ex_db)) = []"
    by (simp_all add: RosterNode_init_def)
  from set_backend_merges_and_rebinds[OF h1 h2 h3, of ex_defaults]
  obtain r' where s: "set_backend ex_defaults (Some ex_db2) ex_roster = (Inr (), r')"
     and ks: "set (keys r') = {''a@x'', ''b@x'', ''c@x''}"
     and all: "\<forall>k \<in> {''a@x'', ''b@x'', ''c@x''}. \<exists>n'. map_of (rosters r') k = Some n' \<and> node_db n' = Some ex_db2 \<and>
              set_backend_calls n' =
                (case map_of (rosters ex_roster) k of Some m \<Rightarrow> set_backend_calls m | None \<Rightarrow> [])
                @ [Some ex_db2]"
    by blast
  have m: "map_of (rosters ex_roster) ''a@x'' = Some (RosterNode_init ex_defaults 0 0 ''a@x'' (Some ex_db))"
     "map_of (rosters ex_roster) ''b@x'' = Some (RosterNode_init ex_defaults 1 0 ''b@x'' (Some ex_db))"
     "map_of (rosters ex_roster) ''c@x'' = None"
    by (simp_all add: r)
  obtain na where na: "map_of (rosters r') ''a@x'' = Some na" "set_backend_calls na = [Some ex_db2]"
    using all[THEN bspec, of "''a@x''"] by (auto simp only: m c option.case append_Nil insertI1)
  obtain nb where nb: "map_of (rosters r') ''b@x'' = Some nb" "set_backend_calls nb = [Some ex_db2]"
    using all[THEN bspec, of "''b@x''"] by (auto simp only: m c option.case append_Nil insertI1 insert_iff)
  obtain nc where nc: "map_of (rosters r') ''c@x'' = Some nc" "set_backend_calls nc = [Some ex_db2]"
    using all[THEN bspec, of "''c@x''"] by (auto simp only: m c option.case append_Nil insertI1 insert_iff)
  show ?thesis
    using h1 h2 h3 s ks na nb nc by blast
qed

subsection \<open>Reset\<close>

text \<open>
  Claim C7. \<open>reset\<close> completes and leaves the roster as it was except that every node
  in the dictionary has received one call of its own \<open>reset\<close>: the keys are the same, in
  the same order, every key holds the same node object as before, and every node's count
  of \<open>reset\<close> calls has gone up by one.
\<close>

theorem reset_resets_every_node:
  assumes "distinct (keys r)"
  shows "reset C r = (Inr (), r\<lparr>rosters := map (\<lambda>(k, n). (k, node_reset n)) (rosters r)\<rparr>) \<and>
         keys (snd (reset C r)) = keys r \<and>
         map (\<lambda>(k, n). oid n) (rosters (snd (reset C r))) = map (\<lambda>(k, n). oid n) (rosters r) \<and>
         map (\<lambda>(k, n). reset_calls n) (rosters (snd (reset C r)))
           = map (\<lambda>(k, n). Suc (reset_calls n)) (rosters r)"
proof -
  let ?r' = "r\<lparr>rosters := map (\<lambda>(k, n). (k, node_reset n)) (rosters r)\<rparr>"
  have d: "distinct (map fst (rosters r))" using assms by (simp add: keys_def)
  have e: "reset C r = (Inr (), ?r')" by (rule reset_all[OF d])
  have s: "snd (reset C r) = ?r'" by (simp add: e)
  have k: "keys ?r' = keys r"
    by (simp add: keys_def case_prod_beta)
  have o: "map (\<lambda>(k, n). oid n) (rosters ?r') = map (\<lambda>(k, n). oid n) (rosters r)"
    by (simp add: case_prod_beta node_reset_def)
  have c: "map (\<lambda>(k, n). reset_calls n) (rosters ?r')
             = map (\<lambda>(k, n). Suc (reset_calls n)) (rosters r)"
    by (simp add: case_prod_beta node_reset_def)
  show ?thesis
    unfolding s by (intro conjI e k o c)
qed

text \<open>The roster seeded with \<open>a@x\<close> and \<open>b@x\<close>.\<close>

theorem reset_resets_every_node_witness:
  "distinct (keys ex_roster) \<and>
   fst (reset ex_defaults ex_roster) = Inr () \<and>
   keys (snd (reset ex_defaults ex_roster)) = [''a@x'', ''b@x''] \<and>
   keys ex_roster = [''a@x'', ''b@x''] \<and>
   map (\<lambda>(k, n). oid n) (rosters (snd (reset ex_defaults ex_roster))) = [0, 1] \<and>
   map (\<lambda>(k, n). reset_calls n) (rosters (snd (reset ex_defaults ex_roster))) = [1, 1]"
proof -
  have r: "rosters ex_roster =
     [(''a@x'', RosterNode_init ex_defaults 0 0 ''a@x'' (Some ex_db)),
      (''b@x'', RosterNode_init ex_defaults 1 0 ''b@x'' (Some ex_db))]"
    by (simp add: ex_roster_def Roster_init_def add_def Let_def ex_db_def bareForm_def)
  have h: "distinct (keys ex_roster)" by (simp add: keys_def r)
  have k: "keys ex_roster = [''a@x'', ''b@x'']" by (simp add: keys_def r)
  note t = reset_resets_every_node[OF h, of ex_defaults]
  have a: "fst (reset ex_defaults ex_roster) = Inr ()"
    by (simp add: t[THEN conjunct1])
  have b: "keys (snd (reset ex_defaults ex_roster)) = keys ex_roster"
    by (rule t[THEN conjunct2, THEN conjunct1])
  have c: "map (\<lambda>(k, n). oid n) (rosters (snd (reset ex_defaults ex_roster)))
              = map (\<lambda>(k, n). oid n) (rosters ex_roster)"
    by (rule t[THEN conjunct2, THEN conjunct2, THEN conjunct1])
  have d: "map (\<lambda>(k, n). reset_calls n) (rosters (snd (reset ex_defaults ex_roster)))
              = map (\<lambda>(k, n). Suc (reset_calls n)) (rosters ex_roster)"
    by (rule t[THEN conjunct2, THEN conjunct2, THEN conjunct2])
  have c': "map (\<lambda>(k, n). oid n) (rosters ex_roster) = [0, 1]"
    by (simp add: r RosterNode_init_def)
  have d': "map (\<lambda>(k, n). Suc (reset_calls n)) (rosters ex_roster) = [1, 1]"
    by (simp add: r RosterNode_init_def)
  have b': "keys (snd (reset ex_defaults ex_roster)) = [''a@x'', ''b@x'']"
    by (simp only: b k)
  have c'': "map (\<lambda>(k, n). oid n) (rosters (snd (reset ex_defaults ex_roster))) = [0, 1]"
    by (simp only: c c')
  have d'': "map (\<lambda>(k, n). reset_calls n) (rosters (snd (reset ex_defaults ex_roster))) = [1, 1]"
    by (simp only: d d')
  show ?thesis
    by (intro conjI h a b' k c'' d'')
qed

subsection \<open>The invariant\<close>

lemma Roster_inv_distinct: "Roster_inv r \<Longrightarrow> distinct (keys r)"
  by (simp add: Roster_inv_def keys_def)

lemma persists_refl: "distinct (map fst (rosters r)) \<Longrightarrow> persists r r"
  by (auto simp: persists_def list_all_iff)

lemma persists_trans: "persists r r1 \<Longrightarrow> persists r1 r2 \<Longrightarrow> persists r r2"
proof -
  assume a: "persists r r1" and b: "persists r1 r2"
  show ?thesis
    unfolding persists_def list_all_iff
  proof
    fix p assume p: "p \<in> set (rosters r)"
    obtain k n where kn: "p = (k, n)" by (cases p)
    from a p kn obtain n1 where n1: "map_of (rosters r1) k = Some n1" "oid n1 = oid n"
      by (auto simp: persists_def list_all_iff)
    then have "(k, n1) \<in> set (rosters r1)" by (auto dest: map_of_SomeD)
    with b have "map_option oid (map_of (rosters r2) k) = Some (oid n1)"
      by (auto simp: persists_def list_all_iff)
    with n1 kn show "case p of (k, n) \<Rightarrow> map_option oid (map_of (rosters r2) k) = Some (oid n)"
      by simp
  qed
qed


lemma inv_append:
  assumes "Roster_inv r" and "k \<notin> fst ` set (rosters r)" and "jid n = k" and "oid n = next_oid r"
  shows "Roster_inv (r\<lparr>rosters := rosters r @ [(k, n)], next_oid := Suc (next_oid r)\<rparr>)"
proof -
  have lt: "\<forall>p \<in> set (rosters r). oid (snd p) < next_oid r"
    using assms(1) by (auto simp: Roster_inv_def list_all_iff)
  then have "next_oid r \<notin> (\<lambda>(k, n). oid n) ` set (rosters r)"
    by (auto simp: case_prod_beta)
  with assms lt show ?thesis
    by (auto simp: Roster_inv_def list_all_iff less_Suc_eq)
qed

lemma persists_append:
  assumes "distinct (map fst (rosters r))" and "k \<notin> fst ` set (rosters r)"
  shows "persists r (r\<lparr>rosters := rosters r @ [(k, n)], next_oid := m\<rparr>)"
  using assms by (auto simp: persists_def list_all_iff map_add_def split: option.splits)

lemma inv_map:
  assumes "Roster_inv r" and "\<And>n. jid (f n) = jid n" and "\<And>n. oid (f n) = oid n"
  shows "Roster_inv (r\<lparr>rosters := map (\<lambda>(k, n). (k, f n)) (rosters r)\<rparr>)"
proof -
  have 1: "map fst (map (\<lambda>(k, n). (k, f n)) (rosters r)) = map fst (rosters r)"
    by (simp add: case_prod_beta)
  have 2: "map (\<lambda>(k, n). oid n) (map (\<lambda>(k, n). (k, f n)) (rosters r)) = map (\<lambda>(k, n). oid n) (rosters r)"
    by (simp add: case_prod_beta assms(3))
  have 3: "list_all (\<lambda>(k, n). jid n = k \<and> oid n < next_oid r) (map (\<lambda>(k, n). (k, f n)) (rosters r))"
    using assms by (auto simp: Roster_inv_def list_all_iff)
  let ?r' = "r\<lparr>rosters := map (\<lambda>(k, n). (k, f n)) (rosters r)\<rparr>"
  have r': "rosters ?r' = map (\<lambda>(k, n). (k, f n)) (rosters r)" "next_oid ?r' = next_oid r"
    by simp_all
  have "distinct (map fst (rosters ?r'))"
    using assms(1) unfolding r' 1 by (simp add: Roster_inv_def)
  moreover have "list_all (\<lambda>(k, n). jid n = k \<and> oid n < next_oid ?r') (rosters ?r')"
    unfolding r' by (rule 3)
  moreover have "distinct (map (\<lambda>(k, n). oid n) (rosters ?r'))"
    using assms(1) unfolding r' 2 by (simp add: Roster_inv_def)
  ultimately show ?thesis
    unfolding Roster_inv_def by (intro conjI)
qed

lemma persists_map:
  assumes "distinct (map fst (rosters r))" and "\<And>n. oid (f n) = oid n"
  shows "persists r (r\<lparr>rosters := map (\<lambda>(k, n). (k, f n)) (rosters r)\<rparr>)"
  using assms by (auto simp: persists_def list_all_iff map_of_map_nodes)

lemma inv_add: "Roster_inv r \<Longrightarrow> Roster_inv (add C i r)"
proof (cases "to_key i \<in> fst ` set (rosters r)")
  case True
  assume "Roster_inv r"
  with True show ?thesis by (simp add: add_present)
next
  case False
  assume "Roster_inv r"
  then show ?thesis
    unfolding add_absent[OF False]
    by (rule inv_append[OF _ False]) (simp_all add: RosterNode_init_def)
qed

lemma persists_add: "Roster_inv r \<Longrightarrow> persists r (add C i r)"
proof (cases "to_key i \<in> fst ` set (rosters r)")
  case True
  assume "Roster_inv r"
  with True show ?thesis by (simp add: add_present persists_refl Roster_inv_def)
next
  case False
  assume "Roster_inv r"
  then have "distinct (map fst (rosters r))" by (simp add: Roster_inv_def)
  then show ?thesis
    unfolding add_absent[OF False] using False by (rule persists_append)
qed

lemma inv_getitem: "Roster_inv r \<Longrightarrow> Roster_inv (snd (getitem C i r))"
proof (cases "to_key i \<in> fst ` set (rosters r)")
  case True
  assume "Roster_inv r"
  moreover from True obtain n where "map_of (rosters r) (to_key i) = Some n"
    using map_of_present by fastforce
  ultimately show ?thesis by (simp add: getitem_present)
next
  case False
  assume "Roster_inv r"
  then show ?thesis
    unfolding getitem_absent[OF False] snd_conv
    by (rule inv_append[OF _ False]) (simp_all add: created_def RosterNode_init_def)
qed

lemma persists_getitem: "Roster_inv r \<Longrightarrow> persists r (snd (getitem C i r))"
proof (cases "to_key i \<in> fst ` set (rosters r)")
  case True
  assume "Roster_inv r"
  moreover from True obtain n where "map_of (rosters r) (to_key i) = Some n"
    using map_of_present by fastforce
  ultimately show ?thesis by (simp add: getitem_present persists_refl Roster_inv_def)
next
  case False
  assume "Roster_inv r"
  then have "distinct (map fst (rosters r))" by (simp add: Roster_inv_def)
  then show ?thesis
    unfolding getitem_absent[OF False] snd_conv using False by (rule persists_append)
qed

lemma inv_add_all: "Roster_inv r \<Longrightarrow> Roster_inv (add_all C nodes r)"
  by (induction nodes arbitrary: r) (auto simp: inv_add)

lemma persists_add_all: "Roster_inv r \<Longrightarrow> persists r (add_all C nodes r)"
proof (induction nodes arbitrary: r)
  case Nil
  then show ?case by (simp add: persists_refl Roster_inv_def)
next
  case (Cons a nodes)
  have "persists r (add C a r)" using Cons.prems by (rule persists_add)
  moreover have "persists (add C a r) (add_all C nodes (add C a r))"
    using Cons.prems by (intro Cons.IH inv_add)
  ultimately show ?case by (simp add: persists_trans)
qed

lemma inv_init: "Roster_inv (Roster_init C x d)"
proof -
  have "Roster_inv \<lparr>xmpp = x, db = d, auto_authorize = True, auto_subscribe = True,
               rosters = [], next_oid = 0\<rparr>"
    by (simp add: Roster_inv_def)
  then show ?thesis
    by (cases d) (simp_all add: Roster_init_def Let_def inv_add_all)
qed

lemma inv_db: "Roster_inv (r\<lparr>db := d\<rparr>) = Roster_inv r"
  by (simp add: Roster_inv_def)

lemma persists_db: "persists r (r'\<lparr>db := d\<rparr>) = persists r r'" "persists (r\<lparr>db := d\<rparr>) r' = persists r r'"
  by (simp_all add: persists_def)

lemma inv_set_backend: "Roster_inv r \<Longrightarrow> Roster_inv (snd (set_backend C d r))"
proof (cases d)
  case None
  assume "Roster_inv r"
  then show ?thesis by (simp add: None set_backend_def inv_db)
next
  case (Some s)
  assume i: "Roster_inv r"
  have "Roster_inv (add_all C (entries s) (r\<lparr>db := Some s\<rparr>))"
    using i by (intro inv_add_all) (simp add: inv_db)
  then have "Roster_inv ((add_all C (entries s) (r\<lparr>db := Some s\<rparr>))
        \<lparr>rosters := map (\<lambda>(k, n). (k, node_set_backend (Some s) n))
                      (rosters (add_all C (entries s) (r\<lparr>db := Some s\<rparr>)))\<rparr>)"
    by (rule inv_map) (simp_all add: node_set_backend_def)
  then show ?thesis
    by (simp add: Some set_backend_Some[OF Roster_inv_distinct[OF i]])
qed

lemma persists_set_backend: "Roster_inv r \<Longrightarrow> persists r (snd (set_backend C d r))"
proof (cases d)
  case None
  assume "Roster_inv r"
  then show ?thesis by (simp add: None set_backend_def persists_db persists_refl Roster_inv_def)
next
  case (Some s)
  assume i: "Roster_inv r"
  let ?r2 = "add_all C (entries s) (r\<lparr>db := Some s\<rparr>)"
  have i2: "Roster_inv ?r2"
    using i by (intro inv_add_all) (simp add: inv_db)
  have "persists (r\<lparr>db := Some s\<rparr>) ?r2"
    using i by (intro persists_add_all) (simp add: inv_db)
  then have a: "persists r ?r2" by (simp add: persists_db)
  have b: "persists ?r2 (?r2\<lparr>rosters := map (\<lambda>(k, n). (k, node_set_backend (Some s) n)) (rosters ?r2)\<rparr>)"
    using i2 by (intro persists_map) (simp_all add: Roster_inv_def node_set_backend_def)
  from persists_trans[OF a b] show ?thesis
    by (simp add: Some set_backend_Some[OF Roster_inv_distinct[OF i]])
qed

lemma inv_reset: "Roster_inv r \<Longrightarrow> Roster_inv (snd (reset C r))"
proof -
  assume i: "Roster_inv r"
  then have d: "distinct (map fst (rosters r))" by (simp add: Roster_inv_def)
  have "Roster_inv (r\<lparr>rosters := map (\<lambda>(k, n). (k, node_reset n)) (rosters r)\<rparr>)"
    using i by (rule inv_map) (simp_all add: node_reset_def)
  then show ?thesis by (simp add: reset_all[OF d])
qed

lemma persists_reset: "Roster_inv r \<Longrightarrow> persists r (snd (reset C r))"
proof -
  assume i: "Roster_inv r"
  then have d: "distinct (map fst (rosters r))" by (simp add: Roster_inv_def)
  have "persists r (r\<lparr>rosters := map (\<lambda>(k, n). (k, node_reset n)) (rosters r)\<rparr>)"
    using d by (rule persists_map) (simp add: node_reset_def)
  then show ?thesis by (simp add: reset_all[OF d])
qed

text \<open>
  Claim C9, as the code has it. The constructor establishes the invariant, and \<open>add\<close>,
  \<open>__getitem__\<close>, \<open>set_backend\<close> and \<open>reset\<close> preserve it, whether they complete or
  raise: there is at most one node per key of the dictionary, where the key is the bare
  form for an identity given as a JID object and the string as given for a plain string.
  Under each of the four operations every key stays in the dictionary and keeps the node
  object it held: no node is removed or replaced.
\<close>

theorem roster_invariant:
  assumes "Roster_inv r"
  shows "Roster_inv (Roster_init C x d0) \<and>
         Roster_inv (add C i r) \<and> persists r (add C i r) \<and>
         Roster_inv (snd (getitem C i r)) \<and> persists r (snd (getitem C i r)) \<and>
         Roster_inv (snd (set_backend C d r)) \<and> persists r (snd (set_backend C d r)) \<and>
         Roster_inv (snd (reset C r)) \<and> persists r (snd (reset C r))"
  using assms
  by (intro conjI inv_init inv_add persists_add inv_getitem persists_getitem
      inv_set_backend persists_set_backend inv_reset persists_reset)


text \<open>The roster seeded with \<open>a@x\<close> and \<open>b@x\<close>, a new identity \<open>c@x\<close>, a second datastore.\<close>

theorem roster_invariant_witness:
  "Roster_inv ex_roster \<and>
   (Roster_inv (Roster_init ex_defaults 0 (Some ex_db)) \<and>
    Roster_inv (add ex_defaults (Str ''c@x'') ex_roster) \<and>
    persists ex_roster (add ex_defaults (Str ''c@x'') ex_roster) \<and>
    Roster_inv (snd (getitem ex_defaults (Str ''c@x'') ex_roster)) \<and>
    persists ex_roster (snd (getitem ex_defaults (Str ''c@x'') ex_roster)) \<and>
    Roster_inv (snd (set_backend ex_defaults (Some ex_db2) ex_roster)) \<and>
    persists ex_roster (snd (set_backend ex_defaults (Some ex_db2) ex_roster)) \<and>
    Roster_inv (snd (reset ex_defaults ex_roster)) \<and>
    persists ex_roster (snd (reset ex_defaults ex_roster)))"
proof -
  have h: "Roster_inv ex_roster"
    by (simp add: Roster_inv_def ex_roster_def Roster_init_def add_def Let_def ex_db_def
        bareForm_def RosterNode_init_def)
  show ?thesis
    by (rule conjI[OF h roster_invariant[OF h]])
qed

text \<open>
  Claim C9 as stated fails where it says one node per bare identity: looked up as plain
  strings, \<open>user@example.com/resource\<close> and \<open>user@example.com\<close> get a node each. The
  two keys, and the identities of the two nodes, have one and the same bare form, and the
  node objects are different.
\<close>

theorem two_nodes_one_bare_identity_counterexample:
  "map (\<lambda>(k, n). (bareForm k, bareForm (jid n), oid n))
     (rosters (snd (getitem ex_defaults (Str ''user@example.com'')
        (snd (getitem ex_defaults (Str ''user@example.com/resource'') ex_empty)))))
   = [(''user@example.com'', ''user@example.com'', 0), (''user@example.com'', ''user@example.com'', 1)]"
  by (simp add: ex_empty_def ex_defaults_def Roster_init_def getitem_def add_def lookup_node_def
      RosterNode_init_def bareForm_def Let_def)

end
